theory Spec2Isabelle
  imports Main "HOL-Library.Word" "HOL-Library.List_Lexorder" "HOL-Library.Finite_Map"
begin

unbundle bit_operations_syntax

section \<open>Bytes and byte strings\<close>

text \<open>
  The package works on Go byte slices (\<^verbatim>\<open>[]byte\<close>).  A byte is an 8-bit word, a slice
  is a list of bytes.  Byte literals of the source such as \<^verbatim>\<open>'%'\<close> are written
  \<open>ch CHR ''%''\<close>, slice literals such as \<^verbatim>\<open>[]byte("//")\<close> are written \<open>bytes ''//''\<close>.
\<close>

type_synonym byte = "8 word"

abbreviation ch :: "char \<Rightarrow> byte" where
  "ch c \<equiv> of_char c"

definition bytes :: "string \<Rightarrow> byte list" where
  "bytes s = map of_char s"

section \<open>Errors\<close>

text \<open>
  The sentinel errors of \<^verbatim>\<open>bytesurl.go\<close>, the \<^verbatim>\<open>EscapeError\<close> string type and the
  wrapper \<^verbatim>\<open>Error{Op, URL, Err}\<close>.  \<open>RuntimePanic\<close> stands for a Go run-time panic
  (a slice read out of range, a nil dereference); it is a branch of the model where the
  source reads without a check of its own, and is shown never to be taken.
\<close>

datatype error =
    ErrProtocolScheme
  | ErrEmptyURL
  | ErrInvalidRequestURI
  | ErrHexadeciamlEscape
  | EscapeError "byte list"
  | Error string "byte list" error
  | RuntimePanic

section \<open>Escaping\<close>

definition ishex :: "byte \<Rightarrow> bool" where
  "ishex c =
     (if ch CHR ''0'' \<le> c \<and> c \<le> ch CHR ''9'' then True
      else if ch CHR ''a'' \<le> c \<and> c \<le> ch CHR ''f'' then True
      else if ch CHR ''A'' \<le> c \<and> c \<le> ch CHR ''F'' then True
      else False)"

definition unhex :: "byte \<Rightarrow> byte" where
  "unhex c =
     (if ch CHR ''0'' \<le> c \<and> c \<le> ch CHR ''9'' then c - ch CHR ''0''
      else if ch CHR ''a'' \<le> c \<and> c \<le> ch CHR ''f'' then c - ch CHR ''a'' + 10
      else if ch CHR ''A'' \<le> c \<and> c \<le> ch CHR ''F'' then c - ch CHR ''A'' + 10
      else 0)"

text \<open>
  \<^verbatim>\<open>type encoding int\<close> is unexported and only its four constants are ever passed.
\<close>

datatype encoding = encodePath | encodeUserPassword | encodeQueryComponent | encodeFragment

definition shouldEscape :: "byte \<Rightarrow> encoding \<Rightarrow> bool" where
  "shouldEscape c mode =
     (if (ch CHR ''A'' \<le> c \<and> c \<le> ch CHR ''Z'') \<or> (ch CHR ''a'' \<le> c \<and> c \<le> ch CHR ''z'')
          \<or> (ch CHR ''0'' \<le> c \<and> c \<le> ch CHR ''9'')
      then False
      else if c = ch CHR ''-'' \<or> c = ch CHR ''_'' \<or> c = ch CHR ''.'' \<or> c = ch CHR ''~''
      then False
      else if c = ch CHR ''$'' \<or> c = ch CHR ''&'' \<or> c = ch CHR ''+'' \<or> c = ch CHR '',''
            \<or> c = ch CHR ''/'' \<or> c = ch CHR '':'' \<or> c = ch CHR '';'' \<or> c = ch CHR ''=''
            \<or> c = ch CHR ''?'' \<or> c = ch CHR ''@''
      then (case mode of
              encodePath \<Rightarrow> c = ch CHR ''?''
            | encodeUserPassword \<Rightarrow>
                c = ch CHR ''@'' \<or> c = ch CHR ''/'' \<or> c = ch CHR ''?'' \<or> c = ch CHR '':''
            | encodeQueryComponent \<Rightarrow> True
            | encodeFragment \<Rightarrow> False)
      else True)"

subsection \<open>escape\<close>

text \<open>
  The first loop of \<^verbatim>\<open>escape\<close> counts the spaces that become \<^verbatim>\<open>+\<close> and the bytes that
  become \<^verbatim>\<open>%XX\<close>; the accumulators are \<^verbatim>\<open>spaceCount\<close> and \<^verbatim>\<open>hexCount\<close>.
\<close>

fun escapeCount :: "byte list \<Rightarrow> encoding \<Rightarrow> nat \<Rightarrow> nat \<Rightarrow> nat \<times> nat" where
  "escapeCount [] mode spaceCount hexCount = (spaceCount, hexCount)"
| "escapeCount (c # s) mode spaceCount hexCount =
     (if shouldEscape c mode then
        (if c = ch CHR '' '' \<and> mode = encodeQueryComponent
         then escapeCount s mode (spaceCount + 1) hexCount
         else escapeCount s mode spaceCount (hexCount + 1))
      else escapeCount s mode spaceCount hexCount)"

definition upperhex :: "byte list" where
  "upperhex = bytes ''0123456789ABCDEF''"

text \<open>
  The second loop writes the output buffer \<^verbatim>\<open>t\<close> from left to right (\<^verbatim>\<open>j\<close> only grows);
  the model returns what is written, in order.  The buffer has \<^verbatim>\<open>len(s)+2*hexCount\<close>
  cells, which is exactly the number of bytes written (lemma \<open>length_escapeFill\<close>).
\<close>

fun escapeFill :: "byte list \<Rightarrow> encoding \<Rightarrow> byte list" where
  "escapeFill [] mode = []"
| "escapeFill (c # s) mode =
     (if c = ch CHR '' '' \<and> mode = encodeQueryComponent then ch CHR ''+'' # escapeFill s mode
      else if shouldEscape c mode then
        ch CHR ''%'' # upperhex ! unat (drop_bit 4 c) # upperhex ! unat (c AND 15)
          # escapeFill s mode
      else c # escapeFill s mode)"

definition escape :: "byte list \<Rightarrow> encoding \<Rightarrow> byte list" where
  "escape s mode =
     (case escapeCount s mode 0 0 of (spaceCount, hexCount) \<Rightarrow>
        if spaceCount = 0 \<and> hexCount = 0 then s else escapeFill s mode)"

definition QueryEscape :: "byte list \<Rightarrow> byte list" where
  "QueryEscape b = escape b encodeQueryComponent"

subsection \<open>unescape\<close>

text \<open>
  The first loop of \<^verbatim>\<open>unescape\<close> checks every \<^verbatim>\<open>%\<close>; its state is the index \<^verbatim>\<open>i\<close>,
  the counter \<^verbatim>\<open>n\<close> and the flag \<^verbatim>\<open>hasPlus\<close>.  The model carries the unread suffix
  \<^verbatim>\<open>s[i:]\<close> in place of \<^verbatim>\<open>i\<close>, so \<^verbatim>\<open>i+2 >= len(s)\<close> reads \<open>length s < 2\<close> for the bytes
  after the \<^verbatim>\<open>%\<close>.  \<open>Inl\<close> is the early return, with the text of the \<^verbatim>\<open>EscapeError\<close>.
\<close>

fun unescapeCheck :: "byte list \<Rightarrow> encoding \<Rightarrow> nat \<Rightarrow> bool \<Rightarrow> byte list + nat \<times> bool" where
  "unescapeCheck [] mode n hasPlus = Inr (n, hasPlus)"
| "unescapeCheck (c # s) mode n hasPlus =
     (if c = ch CHR ''%'' then
        (if length s < 2 \<or> \<not> ishex (s ! 0) \<or> \<not> ishex (s ! 1)
         then Inl (if length (c # s) > 3 then take 3 (c # s) else c # s)
         else unescapeCheck (drop 2 s) mode (n + 1) hasPlus)
      else if c = ch CHR ''+'' then unescapeCheck s mode n (mode = encodeQueryComponent)
      else unescapeCheck s mode n hasPlus)"

text \<open>
  The second loop decodes.  It reads \<^verbatim>\<open>s[i+1]\<close> and \<^verbatim>\<open>s[i+2]\<close> without a bounds check
  of its own; \<open>None\<close> is the panic of such a read past the end.
\<close>

fun unescapeFill :: "byte list \<Rightarrow> encoding \<Rightarrow> byte list option" where
  "unescapeFill [] mode = Some []"
| "unescapeFill (c # s) mode =
     (if c = ch CHR ''%'' then
        (if length s < 2 then None
         else map_option ((#) (push_bit 4 (unhex (s ! 0)) OR unhex (s ! 1)))
                (unescapeFill (drop 2 s) mode))
      else if c = ch CHR ''+'' then
        map_option ((#) (if mode = encodeQueryComponent then ch CHR '' '' else ch CHR ''+''))
          (unescapeFill s mode)
      else map_option ((#) c) (unescapeFill s mode))"

definition unescape :: "byte list \<Rightarrow> encoding \<Rightarrow> byte list \<times> error option" where
  "unescape s mode =
     (case unescapeCheck s mode 0 False of
        Inl e \<Rightarrow> ([], Some (EscapeError e))
      | Inr (n, hasPlus) \<Rightarrow>
          if n = 0 \<and> \<not> hasPlus then (s, None)
          else (case unescapeFill s mode of
                  Some t \<Rightarrow> (t, None)
                | None \<Rightarrow> ([], Some RuntimePanic)))"

definition QueryUnescape :: "byte list \<Rightarrow> byte list \<times> error option" where
  "QueryUnescape s = unescape s encodeQueryComponent"

section \<open>The functions of package \<^verbatim>\<open>bytes\<close> that the source calls\<close>

text \<open>
  Go's standard library is not part of the repository; these are its documented
  results.  Indices are \<open>int\<close>, with \<open>-1\<close> for "not found", as in Go.
\<close>

definition HasPrefix :: "byte list \<Rightarrow> byte list \<Rightarrow> bool" where
  "HasPrefix s pre = (take (length pre) s = pre)"

fun Index :: "byte list \<Rightarrow> byte list \<Rightarrow> int" where
  "Index [] sep = (if sep = [] then 0 else - 1)"
| "Index (c # s) sep =
     (if HasPrefix (c # s) sep then 0
      else (let i = Index s sep in if i < 0 then - 1 else i + 1))"

fun LastIndex :: "byte list \<Rightarrow> byte list \<Rightarrow> int" where
  "LastIndex [] sep = (if sep = [] then 0 else - 1)"
| "LastIndex (c # s) sep =
     (let i = LastIndex s sep in
      if 0 \<le> i then i + 1 else if HasPrefix (c # s) sep then 0 else - 1)"

text \<open>\<^verbatim>\<open>bytes.IndexAny(s, chars)\<close> for ASCII \<open>chars\<close>: the first byte of \<open>s\<close> that is in \<open>chars\<close>.\<close>

fun IndexAny :: "byte list \<Rightarrow> byte list \<Rightarrow> int" where
  "IndexAny [] chars = - 1"
| "IndexAny (c # s) chars =
     (if c \<in> set chars then 0
      else (let i = IndexAny s chars in if i < 0 then - 1 else i + 1))"

definition Contains :: "byte list \<Rightarrow> byte list \<Rightarrow> bool" where
  "Contains b subslice = (Index b subslice \<noteq> - 1)"

text \<open>
  \<^verbatim>\<open>bytes.Split(s, sep)\<close> for a separator of one byte (the source passes \<^verbatim>\<open>SlashByte\<close>):
  the pieces of \<open>s\<close> between the occurrences of \<open>sep\<close>, at least one piece.
\<close>

function Split :: "byte list \<Rightarrow> byte \<Rightarrow> byte list list" where
  "Split s sep =
     (let i = Index s [sep] in
      if i < 0 then [s] else take (nat i) s # Split (drop (nat i + 1) s) sep)"
  by pat_completeness auto
termination
proof (relation "measure (\<lambda>(s, sep). length s)")
  show "wf (measure (\<lambda>(s, sep). length s))" by simp
next
  fix s :: "byte list" and sep :: byte and i :: int
  assume "i = Index s [sep]" and "\<not> i < 0"
  then have "s \<noteq> []" by (cases s) auto
  then show "((drop (nat i + 1) s, sep), (s, sep)) \<in> measure (\<lambda>(s, sep). length s)"
    by simp
qed

declare Split.simps [simp del]

fun Join :: "byte list list \<Rightarrow> byte list \<Rightarrow> byte list" where
  "Join [] sep = []"
| "Join [x] sep = x"
| "Join (x # y # ys) sep = x @ sep @ Join (y # ys) sep"

text \<open>\<^verbatim>\<open>bytes.TrimLeft(s, cutset)\<close> for an ASCII \<open>cutset\<close>.\<close>

definition TrimLeft :: "byte list \<Rightarrow> byte list \<Rightarrow> byte list" where
  "TrimLeft s cutset = dropWhile (\<lambda>c. c \<in> set cutset) s"

text \<open>
  \<^verbatim>\<open>bytes.ToLower\<close> on ASCII input.  The source applies it to the scheme found by
  \<^verbatim>\<open>getscheme\<close>, which holds only ASCII letters, digits and \<^verbatim>\<open>+-.\<close>.
\<close>

definition ToLower :: "byte list \<Rightarrow> byte list" where
  "ToLower s = map (\<lambda>c. if ch CHR ''A'' \<le> c \<and> c \<le> ch CHR ''Z'' then c + 32 else c) s"

section \<open>Userinfo and URL\<close>

record Userinfo =
  username :: "byte list"
  password :: "byte list"
  passwordSet :: bool

text \<open>The constructor \<^verbatim>\<open>User\<close> of the source; the name \<open>User\<close> is the field of \<open>URL\<close> here.\<close>

definition User_of :: "byte list \<Rightarrow> Userinfo" where
  "User_of name = \<lparr>username = name, password = [], passwordSet = False\<rparr>"

definition UserPassword :: "byte list \<Rightarrow> byte list \<Rightarrow> Userinfo" where
  "UserPassword name pw = \<lparr>username = name, password = pw, passwordSet = True\<rparr>"

record URL =
  Scheme :: "byte list"
  Opaque :: "byte list"
  User :: "Userinfo option"
  Host :: "byte list"
  Path :: "byte list"
  RawQuery :: "byte list"
  Fragment :: "byte list"

text \<open>\<^verbatim>\<open>new(URL)\<close>: every field at its zero value.\<close>

definition newURL :: URL where
  "newURL = \<lparr>Scheme = [], Opaque = [], User = None, Host = [], Path = [],
             RawQuery = [], Fragment = []\<rparr>"

section \<open>Parsing\<close>

function getschemeLoop :: "byte list \<Rightarrow> nat \<Rightarrow> byte list \<times> byte list \<times> error option" where
  "getschemeLoop rawurl i =
     (if i < length rawurl then
        (let c = rawurl ! i in
         if (ch CHR ''a'' \<le> c \<and> c \<le> ch CHR ''z'') \<or> (ch CHR ''A'' \<le> c \<and> c \<le> ch CHR ''Z'')
         then getschemeLoop rawurl (i + 1)
         else if (ch CHR ''0'' \<le> c \<and> c \<le> ch CHR ''9'') \<or> c = ch CHR ''+'' \<or> c = ch CHR ''-''
                 \<or> c = ch CHR ''.''
         then (if i = 0 then ([], rawurl, None) else getschemeLoop rawurl (i + 1))
         else if c = ch CHR '':''
         then (if i = 0 then ([], [], Some ErrProtocolScheme)
               else (take i rawurl, drop (i + 1) rawurl, None))
         else ([], rawurl, None))
      else ([], rawurl, None))"
  by pat_completeness auto
termination
  by (relation "measure (\<lambda>(rawurl, i). length rawurl - i)") auto

declare getschemeLoop.simps [simp del]

definition getscheme :: "byte list \<Rightarrow> byte list \<times> byte list \<times> error option" where
  "getscheme rawurl = getschemeLoop rawurl 0"

definition split :: "byte list \<Rightarrow> byte list \<Rightarrow> bool \<Rightarrow> byte list \<times> byte list" where
  "split s c cutc =
     (let i = Index s c in
      if i < 0 then (s, [])
      else if cutc then (take (nat i) s, drop (nat i + length c) s)
      else (take (nat i) s, drop (nat i) s))"

text \<open>
  \<^verbatim>\<open>parseAuthority\<close> returns \<^verbatim>\<open>(user, host, err)\<close>; \<open>host\<close> is assigned before the
  userinfo is decoded, so it is set also when \<open>err\<close> is.
\<close>

definition parseAuthority :: "byte list \<Rightarrow> Userinfo option \<times> byte list \<times> error option" where
  "parseAuthority authority =
     (let i = LastIndex authority (bytes ''@'') in
      if i < 0 then (None, authority, None)
      else
        (let userinfo = take (nat i) authority; host = drop (nat i + 1) authority in
         if Index userinfo (bytes '':'') < 0 then
           (case unescape userinfo encodeUserPassword of
              (userinfo', Some err) \<Rightarrow> (None, host, Some err)
            | (userinfo', None) \<Rightarrow> (Some (User_of userinfo'), host, None))
         else
           (case split userinfo (bytes '':'') True of (username0, password0) \<Rightarrow>
              (case unescape username0 encodeUserPassword of
                 (username', Some err) \<Rightarrow> (None, host, Some err)
               | (username', None) \<Rightarrow>
                   (case unescape password0 encodeUserPassword of
                      (password', Some err) \<Rightarrow> (None, host, Some err)
                    | (password', None) \<Rightarrow>
                        (Some (UserPassword username' password'), host, None))))))"

text \<open>
  \<^verbatim>\<open>parse\<close> returns \<^verbatim>\<open>(url, err)\<close>.  Every \<^verbatim>\<open>goto Error\<close> of the source is \<open>fail\<close> here:
  no URL, and the error wrapped with the operation and the input.
\<close>

definition parse :: "byte list \<Rightarrow> bool \<Rightarrow> URL option \<times> error option" where
  "parse rawurl viaRequest =
     (let fail = (\<lambda>err. (None, Some (Error ''parse'' rawurl err))) in
      if rawurl = [] \<and> viaRequest then fail ErrEmptyURL
      else if rawurl = bytes ''*'' then (Some (newURL\<lparr>Path := bytes ''*''\<rparr>), None)
      else
        (case getscheme rawurl of
           (scheme0, rest0, Some err) \<Rightarrow> fail err
         | (scheme0, rest0, None) \<Rightarrow>
             (case split rest0 (bytes ''?'') True of (rest, rawQuery) \<Rightarrow>
                (let url = newURL\<lparr>Scheme := ToLower scheme0, RawQuery := rawQuery\<rparr> in
                 if \<not> HasPrefix rest (bytes ''/'') \<and> Scheme url \<noteq> []
                 then (Some (url\<lparr>Opaque := rest\<rparr>), None)
                 else if \<not> HasPrefix rest (bytes ''/'') \<and> viaRequest
                 then fail ErrInvalidRequestURI
                 else if (Scheme url \<noteq> [] \<or> \<not> viaRequest \<and> \<not> HasPrefix rest (bytes ''///''))
                         \<and> HasPrefix rest (bytes ''//'')
                 then
                   (case split (drop 2 rest) (bytes ''/'') False of (authority, rest') \<Rightarrow>
                      (case parseAuthority authority of
                         (user, host, Some err) \<Rightarrow> fail err
                       | (user, host, None) \<Rightarrow>
                           if Contains host (bytes ''%'') then fail ErrHexadeciamlEscape
                           else
                             (case unescape rest' encodePath of
                                (path, Some err) \<Rightarrow> fail err
                              | (path, None) \<Rightarrow>
                                  (Some (url\<lparr>User := user, Host := host, Path := path\<rparr>),
                                   None))))
                 else
                   (case unescape rest encodePath of
                      (path, Some err) \<Rightarrow> fail err
                    | (path, None) \<Rightarrow> (Some (url\<lparr>Path := path\<rparr>), None))))))"

definition ParseRequestURI :: "byte list \<Rightarrow> URL option \<times> error option" where
  "ParseRequestURI rawurl = parse rawurl True"

text \<open>
  \<^verbatim>\<open>Parse\<close> cuts the fragment off and parses the rest.  \<^verbatim>\<open>url.Fragment = ...\<close> would
  dereference nil if \<^verbatim>\<open>parse\<close> returned neither a URL nor an error.
\<close>

definition Parse :: "byte list \<Rightarrow> URL option \<times> error option" where
  "Parse rawurl =
     (case split rawurl (bytes ''#'') True of (u, frag) \<Rightarrow>
        (case parse u False of
           (url, Some err) \<Rightarrow> (None, Some err)
         | (url, None) \<Rightarrow>
             if frag = [] then (url, None)
             else
               (case url of
                  None \<Rightarrow> (None, Some RuntimePanic)
                | Some url' \<Rightarrow>
                    (case unescape frag encodeFragment of
                       (fragment, Some err) \<Rightarrow> (None, Some (Error ''parse'' rawurl err))
                     | (fragment, None) \<Rightarrow> (Some (url'\<lparr>Fragment := fragment\<rparr>), None)))))"

section \<open>Resolving references\<close>

text \<open>
  The loop of \<^verbatim>\<open>resolvePath\<close> over the segments \<^verbatim>\<open>src\<close>; \<open>dst\<close> is the list of kept
  segments, \<^verbatim>\<open>dst[:len(dst)-1]\<close> is \<open>butlast dst\<close>.
\<close>

fun resolveLoop :: "byte list list \<Rightarrow> byte list list \<Rightarrow> byte list list" where
  "resolveLoop [] dst = dst"
| "resolveLoop (elem # src) dst =
     (if elem = bytes ''.'' then resolveLoop src dst
      else if elem = bytes ''..'' then
        (if length dst > 0 then resolveLoop src (butlast dst) else resolveLoop src dst)
      else resolveLoop src (dst @ [elem]))"

text \<open>
  \<^verbatim>\<open>ref[0]\<close> is read only when \<open>ref\<close> is not empty, and \<^verbatim>\<open>src[len(src)-1]\<close> is in range
  because \<open>Split\<close> returns at least one piece (lemma \<open>Split_not_Nil\<close>).
\<close>

definition resolvePath :: "byte list \<Rightarrow> byte list \<Rightarrow> byte list" where
  "resolvePath base ref =
     (let buffer =
            (if ref = [] then base
             else if hd ref \<noteq> ch CHR ''/'' then
               (let i = LastIndex base (bytes ''/'') in take (nat (i + 1)) base @ ref)
             else ref)
      in
      if length buffer = 0 then []
      else
        (let src = Split buffer (ch CHR ''/'');
             dst = resolveLoop src [];
             dst = (if last src = bytes ''.'' \<or> last src = bytes ''..'' then dst @ [[]] else dst)
         in bytes ''/'' @ TrimLeft (Join dst (bytes ''/'')) (bytes ''/'')))"

definition ResolveReference :: "URL \<Rightarrow> URL \<Rightarrow> URL" where
  "ResolveReference u ref =
     (let url = ref;
          url = (if Scheme ref = [] then url\<lparr>Scheme := Scheme u\<rparr> else url)
      in
      if Scheme ref \<noteq> [] \<or> Host ref \<noteq> [] \<or> User ref \<noteq> None
      then url\<lparr>Path := resolvePath (Path ref) []\<rparr>
      else if Opaque ref \<noteq> []
      then url\<lparr>User := None, Host := [], Path := []\<rparr>
      else
        (let url =
               (if Path ref = [] then
                  (if RawQuery ref = [] then
                     (let url = url\<lparr>RawQuery := RawQuery u\<rparr> in
                      if Fragment ref = [] then url\<lparr>Fragment := Fragment u\<rparr> else url)
                   else url)
                else url)
         in url\<lparr>Host := Host u, User := User u, Path := resolvePath (Path u) (Path ref)\<rparr>))"

section \<open>Query values\<close>

text \<open>
  \<^verbatim>\<open>type Values map[string][][]byte\<close>: a finite map from keys to sequences of values.
  A nil map is \<open>None\<close> where the source tests for it.
\<close>

type_synonym Values = "(byte list, byte list list) fmap"

text \<open>\<^verbatim>\<open>v[key]\<close> of Go: the zero value (no values) for a key that is absent.\<close>

definition values_of :: "Values \<Rightarrow> byte list \<Rightarrow> byte list list" where
  "values_of v key = (case fmlookup v key of None \<Rightarrow> [] | Some vs \<Rightarrow> vs)"

definition Add :: "Values \<Rightarrow> byte list \<Rightarrow> byte list \<Rightarrow> Values" where
  "Add v key val = fmupd key (values_of v key @ [val]) v"

text \<open>
  The loop of \<^verbatim>\<open>parseQuery\<close>.  Its state is the map \<open>m\<close> (mutated in place by the source),
  the unread \<open>query\<close> and the named result \<open>err\<close>.
\<close>

function parseQueryLoop :: "Values \<Rightarrow> byte list \<Rightarrow> error option \<Rightarrow> Values \<times> error option" where
  "parseQueryLoop m query err =
     (if query \<noteq> [] then
        (let i = IndexAny query (bytes ''&;'');
             key = (if 0 \<le> i then take (nat i) query else query);
             query' = (if 0 \<le> i then drop (nat i + 1) query else [])
         in
         if key = [] then parseQueryLoop m query' err
         else
           (let j = Index key (bytes ''='');
                val = (if 0 \<le> j then drop (nat j + 1) key else []);
                key = (if 0 \<le> j then take (nat j) key else key)
            in
            (case QueryUnescape key of
               (key', Some err1) \<Rightarrow>
                 parseQueryLoop m query' (if err = None then Some err1 else err)
             | (key', None) \<Rightarrow>
                 (case QueryUnescape val of
                    (val', Some err1) \<Rightarrow>
                      parseQueryLoop m query' (if err = None then Some err1 else err)
                  | (val', None) \<Rightarrow>
                      parseQueryLoop (fmupd key' (values_of m key' @ [val']) m) query' err))))
      else (m, err))"
  by pat_completeness auto
termination
  by (relation "measure (\<lambda>(m, query, err). length query)") auto

declare parseQueryLoop.simps [simp del]

definition parseQuery :: "Values \<Rightarrow> byte list \<Rightarrow> Values \<times> error option" where
  "parseQuery m query = parseQueryLoop m query None"

definition ParseQuery :: "byte list \<Rightarrow> Values \<times> error option" where
  "ParseQuery query = parseQuery fmempty query"

text \<open>
  \<^verbatim>\<open>Encode\<close>: the inner loop over the values of one key and the outer loop over the
  sorted keys; \<open>buf\<close> is the buffer written so far.  \<^verbatim>\<open>sort.Strings\<close> orders the keys
  bytewise, which is the lexicographic order of byte lists.
\<close>

fun encodeValues :: "byte list \<Rightarrow> byte list list \<Rightarrow> byte list \<Rightarrow> byte list" where
  "encodeValues pre [] buf = buf"
| "encodeValues pre (v # vs) buf =
     encodeValues pre vs
       ((if length buf > 0 then buf @ [ch CHR ''&''] else buf) @ pre @ QueryEscape v)"

fun encodeKeys :: "Values \<Rightarrow> byte list list \<Rightarrow> byte list \<Rightarrow> byte list" where
  "encodeKeys v [] buf = buf"
| "encodeKeys v (k # keys) buf =
     (let vs = values_of v k;
          pre = QueryEscape k @ bytes ''=''
      in encodeKeys v keys (encodeValues pre vs buf))"

definition Encode :: "Values option \<Rightarrow> byte list" where
  "Encode v =
     (case v of
        None \<Rightarrow> []
      | Some m \<Rightarrow> encodeKeys m (sorted_list_of_fset (fmdom m)) [])"

section \<open>The specification's reading of the escaper\<close>

text \<open>
  The context table of the specification: unreserved bytes, the reserved bytes, and
  for each context the reserved bytes it escapes.  An escaped byte is written as
  \<^verbatim>\<open>%\<close> and its two hexadecimal digits in upper case.
\<close>

definition unreserved :: "byte \<Rightarrow> bool" where
  "unreserved c =
     ((ch CHR ''A'' \<le> c \<and> c \<le> ch CHR ''Z'') \<or> (ch CHR ''a'' \<le> c \<and> c \<le> ch CHR ''z'')
      \<or> (ch CHR ''0'' \<le> c \<and> c \<le> ch CHR ''9'') \<or> c \<in> set (bytes ''-_.~''))"

definition reserved :: "byte \<Rightarrow> bool" where
  "reserved c = (c \<in> set (bytes ''$&+,/:;=?@''))"

fun escapedReserved :: "encoding \<Rightarrow> byte list" where
  "escapedReserved encodePath = bytes ''?''"
| "escapedReserved encodeUserPassword = bytes ''@/?:''"
| "escapedReserved encodeQueryComponent = bytes ''$&+,/:;=?@''"
| "escapedReserved encodeFragment = []"

definition escapeTable :: "byte \<Rightarrow> encoding \<Rightarrow> bool" where
  "escapeTable c mode =
     (if unreserved c then False
      else if reserved c then c \<in> set (escapedReserved mode)
      else True)"

definition hexDigitUpper :: "nat \<Rightarrow> byte" where
  "hexDigitUpper k = (if k < 10 then ch CHR ''0'' + of_nat k else ch CHR ''A'' + of_nat (k - 10))"

definition percentEncoded :: "byte \<Rightarrow> byte list" where
  "percentEncoded c = [ch CHR ''%'', hexDigitUpper (unat c div 16), hexDigitUpper (unat c mod 16)]"

definition escapeByte :: "encoding \<Rightarrow> byte \<Rightarrow> byte list" where
  "escapeByte mode c =
     (if c = ch CHR '' '' \<and> mode = encodeQueryComponent then [ch CHR ''+'']
      else if escapeTable c mode then percentEncoded c
      else [c])"

section \<open>The specification's reading of the path resolver\<close>

text \<open>
  The working string (reference empty: the base path; reference starting with \<^verbatim>\<open>/\<close>: the
  reference; otherwise the base path up to and including its last \<^verbatim>\<open>/\<close>, followed by
  the reference), and the segments kept by the walk from left to right: \<^verbatim>\<open>.\<close> is
  dropped, \<^verbatim>\<open>..\<close> is dropped and removes the most recently kept segment if there is
  one, any other segment is kept; an empty segment is appended when the last segment of
  the working string is \<^verbatim>\<open>.\<close> or \<^verbatim>\<open>..\<close>.
\<close>

definition workingString :: "byte list \<Rightarrow> byte list \<Rightarrow> byte list" where
  "workingString base ref =
     (if ref = [] then base
      else if hd ref = ch CHR ''/'' then ref
      else rev (dropWhile (\<lambda>c. c \<noteq> ch CHR ''/'') (rev base)) @ ref)"

definition keepSegment :: "byte list list \<Rightarrow> byte list \<Rightarrow> byte list list" where
  "keepSegment kept seg =
     (if seg = bytes ''.'' then kept
      else if seg = bytes ''..'' then butlast kept
      else kept @ [seg])"

definition keptSegments :: "byte list \<Rightarrow> byte list list" where
  "keptSegments w =
     (let segs = Split w (ch CHR ''/'') in
      foldl keepSegment [] segs
        @ (if last segs = bytes ''.'' \<or> last segs = bytes ''..'' then [[]] else []))"

section \<open>The specification's reading of a malformed escape\<close>

text \<open>
  A \<^verbatim>\<open>%\<close> at position \<open>p\<close> is malformed when it is not followed by two hexadecimal
  digits (of either case) inside the input; \<open>firstMalformed\<close> is the leftmost such
  position, if there is one.
\<close>

definition isHexDigit :: "byte \<Rightarrow> bool" where
  "isHexDigit c = (c \<in> set (bytes ''0123456789abcdefABCDEF''))"

definition malformedAt :: "byte list \<Rightarrow> nat \<Rightarrow> bool" where
  "malformedAt s p =
     (s ! p = ch CHR ''%''
      \<and> \<not> (p + 2 < length s \<and> isHexDigit (s ! (p + 1)) \<and> isHexDigit (s ! (p + 2))))"

definition firstMalformed :: "byte list \<Rightarrow> nat option" where
  "firstMalformed s = find (malformedAt s) [0..<length s]"

section \<open>The escaper\<close>

lemma shouldEscape_table: "shouldEscape c mode = escapeTable c mode"
  by (cases mode) (auto simp: shouldEscape_def escapeTable_def unreserved_def reserved_def bytes_def)

lemma nat_lt_16_cases:
  "(k::nat) < 16 \<Longrightarrow> k = 0 \<or> k = 1 \<or> k = 2 \<or> k = 3 \<or> k = 4 \<or> k = 5 \<or> k = 6 \<or> k = 7 \<or> k = 8
     \<or> k = 9 \<or> k = 10 \<or> k = 11 \<or> k = 12 \<or> k = 13 \<or> k = 14 \<or> k = 15"
  by arith

lemma upperhex_nth: "k < 16 \<Longrightarrow> upperhex ! k = hexDigitUpper k"
  by (drule nat_lt_16_cases) (auto simp: upperhex_def bytes_def hexDigitUpper_def)

lemma unat_hi: "unat (drop_bit 4 (c::byte)) = unat c div 16"
  by (simp add: drop_bit_eq_div unat_div)

lemma unat_lo: "unat ((c::byte) AND 15) = unat c mod 16"
proof -
  have "(15::byte) = mask 4" by (simp add: mask_eq_exp_minus_1)
  then have "c AND 15 = take_bit 4 c" by (simp add: take_bit_eq_mask)
  then show ?thesis by (simp add: take_bit_eq_mod unat_mod)
qed

lemma unat_byte_div: "unat (c::byte) div 16 < 16"
  using unsigned_less [of c, where ?'a = nat] by simp

lemma escapeFill_concat: "escapeFill s mode = concat (map (escapeByte mode) s)"
  by (induction s)
     (auto simp: escapeByte_def percentEncoded_def shouldEscape_table [symmetric]
        unat_hi unat_lo upperhex_nth unat_byte_div)

lemma escapeCount_acc:
  "escapeCount s mode a b = (a + fst (escapeCount s mode 0 0), b + snd (escapeCount s mode 0 0))"
proof (induction s arbitrary: a b)
  case Nil
  then show ?case by simp
next
  case (Cons c s)
  show ?case
    using Cons.IH [of "a + 1" b] Cons.IH [of a "b + 1"] Cons.IH [of a b]
      Cons.IH [of 1 0] Cons.IH [of 0 1]
    by auto
qed

lemma escapeCount_zero:
  "escapeCount s mode 0 0 = (0, 0) \<Longrightarrow> escapeFill s mode = s"
proof (induction s)
  case Nil
  then show ?case by simp
next
  case (Cons c s)
  from Cons.prems have ne: "\<not> shouldEscape c mode"
    using escapeCount_acc [of s mode 1 0] escapeCount_acc [of s mode 0 1]
    by (auto split: if_splits)
  then have sp: "\<not> (c = ch CHR '' '' \<and> mode = encodeQueryComponent)"
    by (auto simp: shouldEscape_def)
  from Cons.prems ne have "escapeCount s mode 0 0 = (0, 0)" by simp
  with Cons.IH ne sp show ?case by simp
qed

lemma escape_concat: "escape s mode = concat (map (escapeByte mode) s)"
proof (cases "escapeCount s mode 0 0 = (0, 0)")
  case True
  then show ?thesis
    using escapeCount_zero [OF True] escapeFill_concat [of s mode]
    by (simp add: escape_def)
next
  case False
  then show ?thesis
    by (auto simp: escape_def escapeFill_concat split: prod.splits)
qed

lemma length_escapeFill:
  "length (escapeFill s mode) = length s + 2 * snd (escapeCount s mode 0 0)"
proof (induction s)
  case Nil
  then show ?case by simp
next
  case (Cons c s)
  then show ?case
    using escapeCount_acc [of s mode 1 0] escapeCount_acc [of s mode 0 1]
    by (auto simp: shouldEscape_def)
qed

section \<open>The path resolver\<close>

lemma Split_not_Nil: "Split s sep \<noteq> []"
  by (subst Split.simps) (simp add: Let_def)

lemma LastIndex_single_ge: "- 1 \<le> LastIndex s [c]"
  by (induction s) (auto simp: Let_def)

lemma LastIndex_single_neg: "LastIndex s [c] < 0 \<longleftrightarrow> c \<notin> set s"
  by (induction s) (auto simp: Let_def HasPrefix_def)

lemma take_LastIndex:
  "take (nat (LastIndex base [c] + 1)) base = rev (dropWhile (\<lambda>x. x \<noteq> c) (rev base))"
proof (induction base)
  case Nil
  then show ?case by simp
next
  case (Cons x s)
  show ?case
  proof (cases "c \<in> set s")
    case True
    then have i: "0 \<le> LastIndex s [c]" using LastIndex_single_neg [of s c] by simp
    then have "nat (LastIndex s [c] + 1 + 1) = Suc (nat (LastIndex s [c] + 1))" by simp
    moreover from True have "dropWhile (\<lambda>x. x \<noteq> c) (rev s @ [x]) = dropWhile (\<lambda>x. x \<noteq> c) (rev s) @ [x]"
      by (intro dropWhile_append1 [where x = c]) auto
    ultimately show ?thesis using i Cons.IH by (simp add: Let_def)
  next
    case False
    then have i: "LastIndex s [c] < 0" using LastIndex_single_neg [of s c] by simp
    from False have "dropWhile (\<lambda>x. x \<noteq> c) (rev s @ [x]) = dropWhile (\<lambda>x. x \<noteq> c) [x]"
      by (intro dropWhile_append2) auto
    then show ?thesis using i by (auto simp: Let_def HasPrefix_def)
  qed
qed

lemma resolveLoop_foldl: "resolveLoop src dst = foldl keepSegment dst src"
  by (induction src arbitrary: dst) (auto simp: keepSegment_def)

lemma resolvePath_buffer:
  "resolvePath base ref =
     (if workingString base ref = [] then []
      else ch CHR ''/'' # dropWhile (\<lambda>c. c = ch CHR ''/'')
             (Join (keptSegments (workingString base ref)) (bytes ''/'')))"
proof -
  have "bytes ''/'' = [ch CHR ''/'']" by (simp add: bytes_def)
  then show ?thesis
    by (auto simp: resolvePath_def workingString_def keptSegments_def Let_def take_LastIndex
        resolveLoop_foldl TrimLeft_def)
qed

lemma workingString_Nil: "workingString base ref = [] \<longleftrightarrow> base = [] \<and> ref = []"
  by (auto simp: workingString_def)

lemma take1_dropWhile: "take 1 (dropWhile (\<lambda>c. c = x) xs) \<noteq> [x]"
  by (induction xs) auto

section \<open>The unescaper\<close>

lemma ishex_isHexDigit: "ishex c = isHexDigit c"
proof -
  have r: "\<And>lo hi. (lo \<le> c \<and> c \<le> hi) = (unat lo \<le> unat c \<and> unat c \<le> unat hi)"
    by (simp add: word_le_nat_alt)
  have e: "\<And>k. (c = k) = (unat c = unat k)"
    by (simp add: word_unat_eq_iff)
  show ?thesis
    unfolding ishex_def isHexDigit_def bytes_def
    apply (simp add: r)
    apply (simp add: e)
    by arith
qed

lemma ishex_not_percent: "ishex c \<Longrightarrow> c \<noteq> ch CHR ''%''"
  by (auto simp: ishex_def)

lemma find_map_comp: "find P (map f xs) = map_option f (find (P \<circ> f) xs)"
  by (induction xs) auto

lemma malformedAt_Suc: "malformedAt (c # s) (Suc p) = malformedAt s p"
  by (simp add: malformedAt_def)

lemma firstMalformed_Cons:
  "firstMalformed (c # s) =
     (if malformedAt (c # s) 0 then Some 0 else map_option Suc (firstMalformed s))"
proof -
  have "[0..<length (c # s)] = 0 # map Suc [0..<length s]"
    by (simp add: upt_conv_Cons map_Suc_upt del: upt_Suc)
  moreover have "malformedAt (c # s) \<circ> Suc = malformedAt s"
    by (rule ext) (simp add: malformedAt_Suc)
  ultimately show ?thesis
    by (simp add: firstMalformed_def find_map_comp)
qed

lemma firstMalformed_Nil: "firstMalformed [] = None"
  by (simp add: firstMalformed_def)

lemma firstMalformed_plain:
  "c \<noteq> ch CHR ''%'' \<Longrightarrow> firstMalformed (c # s) = map_option Suc (firstMalformed s)"
  by (simp add: firstMalformed_Cons malformedAt_def)

lemma firstMalformed_bad:
  "length s < 2 \<or> \<not> ishex (s ! 0) \<or> \<not> ishex (s ! 1)
   \<Longrightarrow> firstMalformed (ch CHR ''%'' # s) = Some 0"
  by (auto simp: firstMalformed_Cons malformedAt_def ishex_isHexDigit)

lemma firstMalformed_good:
  assumes "\<not> length s < 2" and "ishex (s ! 0)" and "ishex (s ! 1)"
  shows "firstMalformed (ch CHR ''%'' # s)
         = map_option (\<lambda>p. Suc (Suc (Suc p))) (firstMalformed (drop 2 s))"
proof -
  from assms(1) obtain a b r where s: "s = a # b # r"
    by (cases s; cases "tl s") auto
  with assms have a: "a \<noteq> ch CHR ''%''" and b: "b \<noteq> ch CHR ''%''"
    by (auto dest: ishex_not_percent)
  from s assms have m: "\<not> malformedAt (ch CHR ''%'' # s) 0"
    by (simp add: malformedAt_def ishex_isHexDigit)
  have 1: "firstMalformed (b # r) = map_option Suc (firstMalformed r)"
    using b by (rule firstMalformed_plain)
  have 2: "firstMalformed (a # b # r) = map_option Suc (firstMalformed (b # r))"
    using a by (rule firstMalformed_plain)
  have 3: "firstMalformed (ch CHR ''%'' # s) = map_option Suc (firstMalformed s)"
    using m by (subst firstMalformed_Cons) simp
  show ?thesis
    unfolding 3 unfolding s by (simp add: 1 2 option.map_comp comp_def)
qed

lemma unescapeCheck_malformed:
  "firstMalformed s = Some p \<Longrightarrow> unescapeCheck s mode n hasPlus = Inl (take 3 (drop p s))"
proof (induction s mode n hasPlus arbitrary: p rule: unescapeCheck.induct)
  case (1 mode n hasPlus)
  then show ?case by (simp add: firstMalformed_Nil)
next
  case (2 c s mode n hasPlus)
  show ?case
  proof (cases "c = ch CHR ''%''")
    case True
    show ?thesis
    proof (cases "length s < 2 \<or> \<not> ishex (s ! 0) \<or> \<not> ishex (s ! 1)")
      case bad: True
      with True "2.prems" have "p = 0" using firstMalformed_bad [of s] by simp
      with True bad show ?thesis by auto
    next
      case good: False
      with True "2.prems" obtain q where q: "firstMalformed (drop 2 s) = Some q" "p = Suc (Suc (Suc q))"
        using firstMalformed_good [of s] by (cases "firstMalformed (drop 2 s)") auto
      from good obtain a b r where s: "s = a # b # r"
        by (cases s; cases "tl s") auto
      from "2.IH"(1) [OF True good q(1)] True good q(2) s show ?thesis by simp
    qed
  next
    case False
    with "2.prems" obtain q where q: "firstMalformed s = Some q" "p = Suc q"
      by (cases "firstMalformed s") (auto simp: firstMalformed_plain)
    show ?thesis
    proof (cases "c = ch CHR ''+''")
      case True
      with "2.IH"(2) [OF False True q(1)] False q(2) show ?thesis by simp
    next
      case np: False
      with "2.IH"(3) [OF False np q(1)] False q(2) show ?thesis by simp
    qed
  qed
qed

lemma unescapeCheck_wellformed:
  "firstMalformed s = None \<Longrightarrow> \<exists>r. unescapeCheck s mode n hasPlus = Inr r"
proof (induction s mode n hasPlus rule: unescapeCheck.induct)
  case (1 mode n hasPlus)
  then show ?case by simp
next
  case (2 c s mode n hasPlus)
  show ?case
  proof (cases "c = ch CHR ''%''")
    case True
    show ?thesis
    proof (cases "length s < 2 \<or> \<not> ishex (s ! 0) \<or> \<not> ishex (s ! 1)")
      case bad: True
      with True "2.prems" show ?thesis using firstMalformed_bad [of s] by simp
    next
      case good: False
      with True "2.prems" have "firstMalformed (drop 2 s) = None"
        using firstMalformed_good [of s] by auto
      from "2.IH"(1) [OF True good this] True good show ?thesis by simp
    qed
  next
    case False
    with "2.prems" have q: "firstMalformed s = None"
      by (auto simp: firstMalformed_plain)
    show ?thesis
    proof (cases "c = ch CHR ''+''")
      case True
      with "2.IH"(2) [OF False True q] False show ?thesis by simp
    next
      case np: False
      with "2.IH"(3) [OF False np q] False show ?thesis by simp
    qed
  qed
qed

lemma unescapeFill_wellformed:
  "unescapeCheck s mode n hasPlus = Inr r \<Longrightarrow> \<exists>t. unescapeFill s mode = Some t"
proof (induction s mode n hasPlus rule: unescapeCheck.induct)
  case (1 mode n hasPlus)
  then show ?case by simp
next
  case (2 c s mode n hasPlus)
  then show ?case by (auto split: if_splits)
qed

lemma unescape_cases:
  "(case firstMalformed s of
      None \<Rightarrow> snd (unescape s mode) = None
    | Some p \<Rightarrow> unescape s mode = ([], Some (EscapeError (take 3 (drop p s)))))"
proof (cases "firstMalformed s")
  case None
  then obtain r where r: "unescapeCheck s mode 0 False = Inr r"
    using unescapeCheck_wellformed by blast
  then obtain t where "unescapeFill s mode = Some t"
    using unescapeFill_wellformed by blast
  with None r show ?thesis
    by (auto simp: unescape_def split: prod.splits)
next
  case (Some p)
  then show ?thesis
    by (simp add: unescape_def unescapeCheck_malformed)
qed

lemma unescape_fails_iff:
  "(snd (unescape s mode) \<noteq> None) = (\<exists>p<length s. malformedAt s p)"
proof -
  have "(firstMalformed s = None) = (\<not> (\<exists>p<length s. malformedAt s p))"
    by (auto simp: firstMalformed_def find_None_iff)
  then show ?thesis
    using unescape_cases [of s mode] by (cases "firstMalformed s") auto
qed

lemma unescapeCheck_mono:
  "unescapeCheck t mode n hp = Inr (n', hp') \<Longrightarrow> n \<le> n'"
proof (induction t mode n hp rule: unescapeCheck.induct)
  case (1 mode n hasPlus)
  then show ?case by simp
next
  case (2 c s mode n hasPlus)
  then show ?case by (fastforce split: if_splits)
qed

lemma unescapeCheck_no_percent:
  "unescapeCheck t mode n hp = Inr (n, hp') \<Longrightarrow> ch CHR ''%'' \<notin> set t"
proof (induction t mode n hp rule: unescapeCheck.induct)
  case (1 mode n hasPlus)
  then show ?case by simp
next
  case (2 c s mode n hasPlus)
  then show ?case
    using unescapeCheck_mono [of "drop 2 s" mode "n + 1" hasPlus n hp']
    by (auto split: if_splits)
qed

lemma unescapeCheck_plus_sticks:
  "unescapeCheck t encodeQueryComponent n True = Inr (n', hp') \<Longrightarrow> hp'"
proof (induction t encodeQueryComponent n True rule: unescapeCheck.induct)
  case (1 n)
  then show ?case by simp
next
  case (2 c s n)
  then show ?case by (auto split: if_splits)
qed

lemma unescapeCheck_no_plus:
  "unescapeCheck t encodeQueryComponent n hp = Inr (n', False) \<Longrightarrow> ch CHR ''+'' \<notin> set t"
proof (induction t encodeQueryComponent n hp rule: unescapeCheck.induct)
  case (1 n hasPlus)
  then show ?case by simp
next
  case (2 c s n hasPlus)
  show ?case
  proof (cases "c = ch CHR ''%''")
    case True
    with "2.prems" have good: "\<not> (length s < 2 \<or> \<not> ishex (s ! 0) \<or> \<not> ishex (s ! 1))"
      by (auto split: if_splits)
    then obtain a b r where s: "s = a # b # r"
      by (cases s; cases "tl s") auto
    with good have "a \<noteq> ch CHR ''+''" and "b \<noteq> ch CHR ''+''"
      by (auto simp: ishex_def)
    moreover from "2.hyps"(1) [OF True good] "2.prems" True good
    have "ch CHR ''+'' \<notin> set (drop 2 s)" by simp
    ultimately show ?thesis using True s by simp
  next
    case False
    with "2.prems" "2.hyps"(2,3) show ?thesis
      using unescapeCheck_plus_sticks [of s n n' False]
      by (auto split: if_splits)
  qed
qed

lemma unescapeFill_id:
  "ch CHR ''%'' \<notin> set t \<Longrightarrow> mode = encodeQueryComponent \<longrightarrow> ch CHR ''+'' \<notin> set t
   \<Longrightarrow> unescapeFill t mode = Some t"
  by (induction t) auto

text \<open>The early return of \<open>unescape\<close> agrees with the decoding loop.\<close>

lemma unescape_decodes:
  assumes "unescapeCheck t mode 0 False = Inr r" and "unescapeFill t mode = Some d"
  shows "unescape t mode = (d, None)"
proof (cases "r = (0, False)")
  case True
  with assms(1) have "ch CHR ''%'' \<notin> set t"
    using unescapeCheck_no_percent [of t mode 0 False False] by simp
  moreover from True assms(1) have "mode = encodeQueryComponent \<longrightarrow> ch CHR ''+'' \<notin> set t"
    using unescapeCheck_no_plus [of t 0 False 0] by auto
  ultimately have "unescapeFill t mode = Some t" by (rule unescapeFill_id)
  with assms True show ?thesis by (simp add: unescape_def)
next
  case False
  with assms show ?thesis by (auto simp: unescape_def split: prod.splits)
qed

lemma hexDigitUpper_ishex: "k < 16 \<Longrightarrow> ishex (hexDigitUpper k)"
  by (drule nat_lt_16_cases) (auto simp: hexDigitUpper_def ishex_def)

lemma hexDigitUpper_unhex: "k < 16 \<Longrightarrow> unhex (hexDigitUpper k) = of_nat k"
  by (drule nat_lt_16_cases) (auto simp: hexDigitUpper_def unhex_def)

lemma unat_byte_mod: "unat (c::byte) mod 16 < 16"
  by simp

section \<open>The claims\<close>

text \<open>
  C3.  For every byte \<open>c\<close> and every context \<open>mode\<close>, \<open>shouldEscape\<close> is the context
  table of the specification: unreserved bytes are never escaped; of the reserved bytes
  \<^verbatim>\<open>$ & + , / : ; = ? @\<close> the path context escapes only \<^verbatim>\<open>?\<close>, the userinfo context
  only \<^verbatim>\<open>@ / ? :\<close>, the query-component context all, the fragment context none; every
  other byte is escaped.  And \<open>escape\<close> rewrites its input byte by byte: a space in the
  query-component context becomes \<^verbatim>\<open>+\<close>, every other escaped byte becomes \<^verbatim>\<open>%XX\<close> with
  upper-case hexadecimal digits, the remaining bytes stay.
\<close>

theorem escape_context_table:
  "shouldEscape c mode = escapeTable c mode
   \<and> escape s mode = concat (map (escapeByte mode) s)"
  by (simp add: shouldEscape_table escape_concat)

theorem escape_context_table_witness:
  "shouldEscape (ch CHR ''?'') encodeQueryComponent = True
   \<and> escape (bytes ''a b/*'') encodeQueryComponent = bytes ''a+b%2F%2A''"
  using escape_context_table [of "ch CHR ''?''" encodeQueryComponent "bytes ''a b/*''"]
  by (simp add: escapeTable_def unreserved_def reserved_def escapeByte_def percentEncoded_def
      hexDigitUpper_def bytes_def)

text \<open>
  C2.  Let the reference have an empty scheme, an empty host, no userinfo, an empty
  opaque part and an empty path.  Then the result's raw query is the base's when the
  reference's raw query is empty (and the reference's otherwise), and the result's
  fragment is the base's exactly when the reference's raw query and fragment are both
  empty; with a non-empty raw query the result keeps the reference's fragment, so the
  base's fragment is not inherited even when the reference's fragment is empty.
\<close>

theorem resolve_empty_path:
  assumes "Scheme ref = []" and "Host ref = []" and "User ref = None" and "Opaque ref = []"
    and "Path ref = []"
  shows "RawQuery (ResolveReference u ref) = (if RawQuery ref = [] then RawQuery u else RawQuery ref)
         \<and> Fragment (ResolveReference u ref) =
             (if RawQuery ref = [] \<and> Fragment ref = [] then Fragment u else Fragment ref)"
  using assms by (simp add: ResolveReference_def Let_def)

theorem resolve_empty_path_witness:
  "RawQuery (ResolveReference
       (newURL\<lparr>Scheme := bytes ''http'', Host := bytes ''a'', Path := bytes ''/b'',
                RawQuery := bytes ''q'', Fragment := bytes ''s''\<rparr>)
       (newURL\<lparr>RawQuery := bytes ''y''\<rparr>)) = bytes ''y''
   \<and> Fragment (ResolveReference
       (newURL\<lparr>Scheme := bytes ''http'', Host := bytes ''a'', Path := bytes ''/b'',
                RawQuery := bytes ''q'', Fragment := bytes ''s''\<rparr>)
       (newURL\<lparr>RawQuery := bytes ''y''\<rparr>)) = []
   \<and> RawQuery (ResolveReference
       (newURL\<lparr>Scheme := bytes ''http'', Host := bytes ''a'', Path := bytes ''/b'',
                RawQuery := bytes ''q'', Fragment := bytes ''s''\<rparr>)
       newURL) = bytes ''q''
   \<and> Fragment (ResolveReference
       (newURL\<lparr>Scheme := bytes ''http'', Host := bytes ''a'', Path := bytes ''/b'',
                RawQuery := bytes ''q'', Fragment := bytes ''s''\<rparr>)
       newURL) = bytes ''s''"
proof -
  let ?u = "newURL\<lparr>Scheme := bytes ''http'', Host := bytes ''a'', Path := bytes ''/b'',
                RawQuery := bytes ''q'', Fragment := bytes ''s''\<rparr>"
  show ?thesis
    using resolve_empty_path [of "newURL\<lparr>RawQuery := bytes ''y''\<rparr>" ?u]
      resolve_empty_path [of newURL ?u]
    by (simp add: newURL_def bytes_def)
qed

text \<open>
  C10.  Whenever the reference has an empty scheme, an empty host, no userinfo and an
  empty opaque part, \<open>ResolveReference\<close> gives the result the base's host and userinfo,
  and the path \<open>resolvePath\<close> of the base's path and the reference's path; this includes
  the reference with an empty path, where the base's path alone is normalised.
\<close>

theorem resolve_relative_inherits:
  assumes "Scheme ref = []" and "Host ref = []" and "User ref = None" and "Opaque ref = []"
  shows "Host (ResolveReference u ref) = Host u
         \<and> User (ResolveReference u ref) = User u
         \<and> Path (ResolveReference u ref) = resolvePath (Path u) (Path ref)"
  using assms by (simp add: ResolveReference_def Let_def)

theorem resolve_relative_inherits_witness:
  "Host (ResolveReference
           (newURL\<lparr>Scheme := bytes ''http'', Host := bytes ''a'', Path := bytes ''/b/c/d;p'',
                    RawQuery := bytes ''q''\<rparr>)
           (newURL\<lparr>Path := bytes ''../g''\<rparr>)) = bytes ''a''
   \<and> Path (ResolveReference
           (newURL\<lparr>Scheme := bytes ''http'', Host := bytes ''a'', Path := bytes ''/b/c/d;p'',
                    RawQuery := bytes ''q''\<rparr>)
           (newURL\<lparr>Path := bytes ''../g''\<rparr>)) = bytes ''/b/g''
   \<and> Path (ResolveReference
           (newURL\<lparr>Scheme := bytes ''http'', Host := bytes ''a'', Path := bytes ''/b/c/d;p'',
                    RawQuery := bytes ''q''\<rparr>)
           (newURL\<lparr>RawQuery := bytes ''y''\<rparr>)) = bytes ''/b/c/d;p''"
proof -
  let ?u = "newURL\<lparr>Scheme := bytes ''http'', Host := bytes ''a'', Path := bytes ''/b/c/d;p'',
                    RawQuery := bytes ''q''\<rparr>"
  have p1: "resolvePath (bytes ''/b/c/d;p'') (bytes ''../g'') = bytes ''/b/g''" by code_simp
  have p2: "resolvePath (bytes ''/b/c/d;p'') [] = bytes ''/b/c/d;p''" by code_simp
  show ?thesis
    using resolve_relative_inherits [of "newURL\<lparr>Path := bytes ''../g''\<rparr>" ?u]
      resolve_relative_inherits [of "newURL\<lparr>RawQuery := bytes ''y''\<rparr>" ?u] p1 p2
    by (simp add: newURL_def)
qed

text \<open>
  C1, as amended.  \<open>resolvePath\<close> is a total function of the base path and the reference
  path (a function of the logic, defined for all arguments).  When the base path and the
  reference path are not both empty, its result is \<^verbatim>\<open>/\<close> followed by the kept segments
  joined with \<^verbatim>\<open>/\<close>, the leading slashes of the join removed; so the result begins with
  exactly one \<^verbatim>\<open>/\<close>.  When both are empty the source returns the empty path before any
  segment is looked at: the claim as stated fails there (\<open>resolvePath_empty_counterexample\<close>).
\<close>

theorem resolvePath_result:
  assumes "base \<noteq> [] \<or> ref \<noteq> []"
  shows "resolvePath base ref =
           ch CHR ''/'' # dropWhile (\<lambda>c. c = ch CHR ''/'')
             (Join (keptSegments (workingString base ref)) (bytes ''/''))
         \<and> HasPrefix (resolvePath base ref) (bytes ''/'')
         \<and> \<not> HasPrefix (resolvePath base ref) (bytes ''//'')"
proof -
  let ?r = "dropWhile (\<lambda>c. c = ch CHR ''/'')
             (Join (keptSegments (workingString base ref)) (bytes ''/''))"
  from assms have eq: "resolvePath base ref = ch CHR ''/'' # ?r"
    by (simp add: resolvePath_buffer workingString_Nil)
  have "take 1 ?r \<noteq> [ch CHR ''/'']"
    by (rule take1_dropWhile)
  with eq show ?thesis
    by (simp add: HasPrefix_def bytes_def)
qed

theorem resolvePath_empty_counterexample:
  "resolvePath [] [] = [] \<and> \<not> HasPrefix (resolvePath [] []) (bytes ''/'')"
  by (simp add: resolvePath_def HasPrefix_def bytes_def)

theorem resolvePath_result_witness:
  "resolvePath (bytes ''a/b'') (bytes ''..'') = bytes ''/''
   \<and> resolvePath (bytes ''a/b/c'') (bytes ''../d'') = bytes ''/a/d''
   \<and> resolvePath (bytes ''//x'') [] = bytes ''/x''"
proof -
  have k1: "ch CHR ''/'' # dropWhile (\<lambda>c. c = ch CHR ''/'')
             (Join (keptSegments (workingString (bytes ''a/b'') (bytes ''..''))) (bytes ''/'')) = bytes ''/''"
    by code_simp
  have k2: "ch CHR ''/'' # dropWhile (\<lambda>c. c = ch CHR ''/'')
             (Join (keptSegments (workingString (bytes ''a/b/c'') (bytes ''../d''))) (bytes ''/'')) = bytes ''/a/d''"
    by code_simp
  have k3: "ch CHR ''/'' # dropWhile (\<lambda>c. c = ch CHR ''/'')
             (Join (keptSegments (workingString (bytes ''//x'') [])) (bytes ''/'')) = bytes ''/x''"
    by code_simp
  have n: "bytes ''a/b'' \<noteq> []" "bytes ''a/b/c'' \<noteq> []" "bytes ''//x'' \<noteq> []"
    by (simp_all add: bytes_def)
  show ?thesis
    using resolvePath_result [of "bytes ''a/b''" "bytes ''..''"]
      resolvePath_result [of "bytes ''a/b/c''" "bytes ''../d''"]
      resolvePath_result [of "bytes ''//x''" "[]"] k1 k2 k3 n
    by simp
qed

text \<open>
  C4.  \<open>unescape\<close> returns an error exactly when the input holds a \<^verbatim>\<open>%\<close> that is not
  followed by two hexadecimal digits (of either case).  Then the error is the
  \<open>EscapeError\<close> with the bytes from the leftmost such \<^verbatim>\<open>%\<close> on, at most three of them
  (fewer when the input ends sooner), and the returned data is empty.  Otherwise no
  error is returned.
\<close>

theorem unescape_failure:
  "(snd (unescape s mode) \<noteq> None) = (\<exists>p<length s. malformedAt s p)
   \<and> (case firstMalformed s of
        None \<Rightarrow> snd (unescape s mode) = None
      | Some p \<Rightarrow> unescape s mode = ([], Some (EscapeError (take 3 (drop p s)))))"
  using unescape_fails_iff [of s mode] unescape_cases [of s mode] by simp

theorem unescape_failure_witness:
  "unescape (bytes ''a%4a%zzzzz'') encodePath = ([], Some (EscapeError (bytes ''%zz'')))
   \<and> unescape (bytes ''ab%4'') encodeQueryComponent = ([], Some (EscapeError (bytes ''%4'')))
   \<and> snd (unescape (bytes ''a%4a+%6F'') encodeQueryComponent) = None"
proof -
  have 1: "firstMalformed (bytes ''a%4a%zzzzz'') = Some 4" by code_simp
  have 2: "firstMalformed (bytes ''ab%4'') = Some 2" by code_simp
  have 3: "firstMalformed (bytes ''a%4a+%6F'') = None" by code_simp
  show ?thesis
    using unescape_failure [of "bytes ''a%4a%zzzzz''" encodePath]
      unescape_failure [of "bytes ''ab%4''" encodeQueryComponent]
      unescape_failure [of "bytes ''a%4a+%6F''" encodeQueryComponent]
    unfolding 1 2 3
    by (simp add: bytes_def)
qed

end
